theory Spec2Isabelle
  imports Complex_Main "HOL-Library.Word"
begin

section \<open>The tokenizer (components/TTSReader.tsx, \<open>words\<close>)\<close>

text \<open>
  A JavaScript string is a sequence of UTF-16 code units; \<open>length\<close> counts code units,
  and a regular expression without the \<open>u\<close> flag matches code unit by code unit.
\<close>

type_synonym jsstring = "16 word list"

text \<open>
  The character class \<open>\s\<close> of a JavaScript regular expression: the white space and
  line terminator code points of ECMAScript, all of them single code units.
\<close>

definition is_whitespace :: "16 word \<Rightarrow> bool" where
  "is_whitespace c \<longleftrightarrow>
     c = 0x0009 \<or> c = 0x000A \<or> c = 0x000B \<or> c = 0x000C \<or> c = 0x000D \<or> c = 0x0020 \<or>
     c = 0x00A0 \<or> c = 0x1680 \<or> (0x2000 \<le> c \<and> c \<le> 0x200A) \<or> c = 0x2028 \<or>
     c = 0x2029 \<or> c = 0x202F \<or> c = 0x205F \<or> c = 0x3000 \<or> c = 0xFEFF"

text \<open>
  \<open>content.split(/\s+/)\<close>: the pieces of the string between the maximal runs of white
  space, in order. \<open>cur\<close> is the piece read so far. A run at the very start or end
  leaves an empty piece there, and the empty string gives the one piece \<open>""\<close>.
\<close>

function split_ws :: "jsstring \<Rightarrow> jsstring \<Rightarrow> jsstring list" where
  "split_ws cur [] = [cur]"
| "split_ws cur (c # cs) =
     (if is_whitespace c then cur # split_ws [] (dropWhile is_whitespace cs)
      else split_ws (cur @ [c]) cs)"
  by pat_completeness auto
termination
  by (relation "measure (\<lambda>(cur, s). length s)") (auto simp: length_dropWhile_le less_Suc_eq_le)

definition split_whitespace :: "jsstring \<Rightarrow> jsstring list" where
  "split_whitespace s = split_ws [] s"

text \<open>\<open>const words = content.split(/\s+/).filter(word => word.length > 0)\<close>\<close>

definition words :: "jsstring \<Rightarrow> jsstring list" where
  "words content = filter (\<lambda>word. length word > 0) (split_whitespace content)"

text \<open>
  Joining with single spaces, \<open>units.join(" ")\<close>. This function is not part of the
  component; the idempotence property of the tokenizer is stated with it.
\<close>

fun join_space :: "jsstring list \<Rightarrow> jsstring" where
  "join_space [] = []"
| "join_space [w] = w"
| "join_space (w # v # ws) = w @ [0x0020] @ join_space (v # ws)"

section \<open>The playback controller (components/TTSReader.tsx)\<close>

text \<open>
  The component keeps \<open>isPlaying\<close>, \<open>currentWordIndex\<close>, \<open>speed\<close> and \<open>voice\<close> in React
  state. Every render evaluates the component body again, so the functions \<open>speakWord\<close>,
  \<open>handlePlay\<close>, \<open>handlePause\<close>, \<open>handleStop\<close> of one render are closures over the state
  values of that render. An utterance handed to \<open>window.speechSynthesis\<close> carries an
  \<open>onend\<close> callback that is such a closure: it refers to the \<open>index\<close> argument of the
  \<open>speakWord\<close> call that created it and to \<open>isPlaying\<close>, \<open>speed\<close> and \<open>voice\<close> of the render
  that \<open>speakWord\<close> belongs to. The record below stores what the callback captured next
  to what the utterance was given (text, rate, voice). A voice is represented by its name.
\<close>

record utterance =
  u_text :: jsstring
  u_rate :: rat
  u_voice :: "string option"
  u_index :: nat
  u_isPlaying :: bool

text \<open>
  The state a handler acts on: the four React state variables and the utterance queue
  of \<open>window.speechSynthesis\<close> (\<open>speak\<close> appends, \<open>cancel\<close> empties it, the head is the
  utterance being spoken).
\<close>

record reader =
  isPlaying :: bool
  currentWordIndex :: nat
  speed :: rat
  voice :: "string option"
  queue :: "utterance list"

text \<open>
  The values a render's closures see. \<open>r_speed\<close> is \<open>speed[0]\<close>.
\<close>

record render =
  r_isPlaying :: bool
  r_currentWordIndex :: nat
  r_speed :: rat
  r_voice :: "string option"

definition render_of :: "reader \<Rightarrow> render" where
  "render_of s =
     \<lparr>r_isPlaying = isPlaying s, r_currentWordIndex = currentWordIndex s,
      r_speed = speed s, r_voice = voice s\<rparr>"

text \<open>
  \<open>speakWord\<close> of the render \<open>r\<close>, over the word list \<open>ws\<close> of the component. Past the last
  word it only clears \<open>isPlaying\<close>; otherwise it builds the utterance for \<open>ws ! index\<close>
  (in range here) with its \<open>onend\<close> closure and passes it to \<open>speechSynthesis.speak\<close>.
\<close>

definition speakWord :: "jsstring list \<Rightarrow> render \<Rightarrow> nat \<Rightarrow> reader \<Rightarrow> reader" where
  "speakWord ws r index s =
     (if index \<ge> length ws then s\<lparr>isPlaying := False\<rparr>
      else s\<lparr>queue := queue s @
             [\<lparr>u_text = ws ! index, u_rate = r_speed r, u_voice = r_voice r,
               u_index = index, u_isPlaying = r_isPlaying r\<rparr>]\<rparr>)"

text \<open>
  The \<open>onend\<close> callback of utterance \<open>u\<close>, run on the state \<open>s\<close> at the time the event is
  delivered. \<open>isPlaying\<close> in its condition is the captured value \<open>u_isPlaying u\<close>, and its
  call of \<open>speakWord\<close> is the one of the capturing render.
\<close>

definition onend :: "jsstring list \<Rightarrow> utterance \<Rightarrow> reader \<Rightarrow> reader" where
  "onend ws u s =
     (let s1 = s\<lparr>currentWordIndex := u_index u + 1\<rparr> in
      if u_isPlaying u \<and> u_index u + 1 < length ws
      then speakWord ws
             \<lparr>r_isPlaying = u_isPlaying u, r_currentWordIndex = u_index u,
              r_speed = u_rate u, r_voice = u_voice u\<rparr>
             (u_index u + 1) s1
      else s1\<lparr>isPlaying := False\<rparr>)"

text \<open>
  The three button handlers, each the closure of the render that shows state \<open>s\<close>.
  State setters called in one handler are applied in call order, so the last one wins.
\<close>

definition handlePlay :: "jsstring list \<Rightarrow> reader \<Rightarrow> reader" where
  "handlePlay ws s =
     speakWord ws (render_of s) (r_currentWordIndex (render_of s)) (s\<lparr>isPlaying := True\<rparr>)"

definition handlePause :: "reader \<Rightarrow> reader" where
  "handlePause s = (s\<lparr>isPlaying := False\<rparr>)\<lparr>queue := []\<rparr>"

definition handleStop :: "reader \<Rightarrow> reader" where
  "handleStop s = ((s\<lparr>isPlaying := False\<rparr>)\<lparr>queue := []\<rparr>)\<lparr>currentWordIndex := 0\<rparr>"

text \<open>
  What the speech capability can signal for the utterance at the head of its queue.
  The \<open>end\<close> event removes the utterance and runs its \<open>onend\<close> callback. The component
  sets no \<open>onerror\<close> callback, so the \<open>error\<close> event removes the utterance and runs
  nothing. With an empty queue there is no utterance to signal for.
\<close>

definition deliver_end :: "jsstring list \<Rightarrow> reader \<Rightarrow> reader" where
  "deliver_end ws s =
     (case queue s of [] \<Rightarrow> s | u # us \<Rightarrow> onend ws u (s\<lparr>queue := us\<rparr>))"

definition deliver_error :: "reader \<Rightarrow> reader" where
  "deliver_error s = (case queue s of [] \<Rightarrow> s | u # us \<Rightarrow> s\<lparr>queue := us\<rparr>)"

text \<open>The state of a freshly mounted component: the \<open>useState\<close> initial values.\<close>

definition initial :: reader where
  "initial = \<lparr>isPlaying = False, currentWordIndex = 0, speed = 1, voice = None, queue = []\<rparr>"

section \<open>The progress value (components/TTSReader.tsx, \<open>progress\<close>)\<close>

text \<open>
  A JavaScript Number is an IEEE 754 binary64 value. The numbers that occur in
  \<open>(currentWordIndex / words.length) * 100\<close> are never negative, so a value is \<open>NaN\<close>,
  \<open>+Infinity\<close> or a finite value, given as a rational.
\<close>

datatype number = NaN | Infinity | Finite rat

text \<open>
  The exponent of a positive rational: the integer \<open>e\<close> with \<open>2^e \<le> x < 2^(e+1)\<close>.
\<close>

function floor_log2 :: "rat \<Rightarrow> int" where
  "floor_log2 x =
     (if x < 1 then (if 0 < x then floor_log2 (2 * x) - 1 else 0)
      else if 2 \<le> x then floor_log2 (x / 2) + 1 else 0)"
  by pat_completeness auto
termination
proof (relation "measure (\<lambda>x. if x < 1 then nat \<lceil>1 / x\<rceil> else nat \<lfloor>x\<rfloor>)")
  show "wf (measure (\<lambda>x::rat. if x < 1 then nat \<lceil>1 / x\<rceil> else nat \<lfloor>x\<rfloor>))" by simp
next
  fix x :: rat
  assume x: "x < 1" "0 < x"
  have "1 / x > 1" using x by simp
  then have c2: "\<lceil>1 / x\<rceil> \<ge> 2" by (simp add: le_ceiling_iff)
  show "(2 * x, x) \<in> measure (\<lambda>x. if x < 1 then nat \<lceil>1 / x\<rceil> else nat \<lfloor>x\<rfloor>)"
  proof (cases "2 * x < 1")
    case True
    then have "1 / x > 2" using x by (simp add: field_simps)
    then have "1 / (2 * x) \<le> 1 / x - 1" by (simp add: field_simps)
    then have "\<lceil>1 / (2 * x)\<rceil> \<le> \<lceil>1 / x - 1\<rceil>" by (rule ceiling_mono)
    then have "\<lceil>1 / (2 * x)\<rceil> < \<lceil>1 / x\<rceil>" by simp
    with True x c2 show ?thesis by simp
  next
    case False
    then have "\<lfloor>2 * x\<rfloor> = 1" using x by (simp add: floor_eq_iff)
    with False x c2 show ?thesis by simp
  qed
next
  fix x :: rat
  assume x: "\<not> x < 1" "2 \<le> x"
  have "x / 2 \<le> x - 1" using x by simp
  then have "\<lfloor>x / 2\<rfloor> \<le> \<lfloor>x - 1\<rfloor>" by (rule floor_mono)
  then have "\<lfloor>x / 2\<rfloor> < \<lfloor>x\<rfloor>" by simp
  moreover have "0 < \<lfloor>x\<rfloor>" using x by simp
  ultimately show "(x / 2, x) \<in> measure (\<lambda>x. if x < 1 then nat \<lceil>1 / x\<rceil> else nat \<lfloor>x\<rfloor>)"
    using x by simp
qed

declare floor_log2.simps [simp del]

text \<open>Rounding to the nearest integer, a tie going to the even one.\<close>

definition round_half_even :: "rat \<Rightarrow> int" where
  "round_half_even q =
     (let f = \<lfloor>q\<rfloor>; r = q - of_int f in
      if r < 1 / 2 then f else if 1 / 2 < r then f + 1 else if even f then f else f + 1)"

text \<open>
  The binary64 value of an exact non-negative result \<open>x\<close> in the range of the normal
  numbers (from \<open>2^-1022\<close> up to the largest finite value), rounded to nearest, ties
  to even: the significand has 53 bits, so the spacing of the values around \<open>x\<close> is
  \<open>2^(e-52)\<close>. A quotient of two integers below \<open>2^53\<close>, and one hundred times it, are
  zero or in that range.
\<close>

definition round_double :: "rat \<Rightarrow> rat" where
  "round_double x =
     (if x = 0 then 0
      else (let ulp = 2 powi (floor_log2 x - 52) in of_int (round_half_even (x / ulp)) * ulp))"

text \<open>
  \<open>a / b\<close> for two non-negative integers (an index and an array length, both exact as
  Numbers): \<open>0 / 0\<close> is \<open>NaN\<close> and a positive number over zero is \<open>+Infinity\<close>.
  \<open>x * b\<close> for a non-negative Number and a non-negative integer.
\<close>

definition js_div :: "nat \<Rightarrow> nat \<Rightarrow> number" where
  "js_div a b =
     (if b = 0 then (if a = 0 then NaN else Infinity)
      else Finite (round_double (of_nat a / of_nat b)))"

fun js_mul :: "number \<Rightarrow> nat \<Rightarrow> number" where
  "js_mul NaN b = NaN"
| "js_mul Infinity b = (if b = 0 then NaN else Infinity)"
| "js_mul (Finite x) b = Finite (round_double (x * of_nat b))"

text \<open>
  \<open>const progress = (currentWordIndex / words.length) * 100\<close>; \<open>progressRatio\<close> is the
  parenthesised quotient, \<open>index\<close> is \<open>currentWordIndex\<close> and \<open>len\<close> is \<open>words.length\<close>.
\<close>

definition progressRatio :: "nat \<Rightarrow> nat \<Rightarrow> number" where
  "progressRatio index len = js_div index len"

definition progress :: "nat \<Rightarrow> nat \<Rightarrow> number" where
  "progress index len = js_mul (progressRatio index len) 100"

section \<open>The guest store (\<open>useGuestStorage\<close>)\<close>



record BookmarkItem =
  id_bookmark :: string
  history_id :: string
  position :: int
  total_words :: int
  updated_at :: string








text \<open>\<open>Array.prototype.findIndex\<close>: the first index whose element satisfies \<open>P\<close>, or -1.\<close>

fun findIndex :: "('a \<Rightarrow> bool) \<Rightarrow> 'a list \<Rightarrow> int" where
  "findIndex P [] = - 1"
| "findIndex P (x # xs) =
     (if P x then 0 else (let i = findIndex P xs in if i < 0 then - 1 else i + 1))"

definition saveBookmark ::
  "BookmarkItem list \<Rightarrow> string \<Rightarrow> int \<Rightarrow> int \<Rightarrow> string \<Rightarrow> string \<Rightarrow> BookmarkItem list" where
  "saveBookmark guestBookmarks historyId pos totalWords uuid now =
     (let existingIndex = findIndex (\<lambda>b. history_id b = historyId) guestBookmarks in
      if existingIndex \<ge> 0
      then guestBookmarks[nat existingIndex :=
             (guestBookmarks ! nat existingIndex)
               \<lparr>position := pos, total_words := totalWords, updated_at := now\<rparr>]
      else guestBookmarks @
             [\<lparr>id_bookmark = uuid, history_id = historyId, position = pos,
               total_words = totalWords, updated_at = now\<rparr>])"

text \<open>
  Saves for one key, each made from a render that has seen the update of the one
  before.
\<close>

fun saveBookmark_calls ::
  "BookmarkItem list \<Rightarrow> string \<Rightarrow> (int \<times> int \<times> string \<times> string) list \<Rightarrow> BookmarkItem list" where
  "saveBookmark_calls guestBookmarks historyId [] = guestBookmarks"
| "saveBookmark_calls guestBookmarks historyId ((pos, totalWords, uuid, now) # calls) =
     saveBookmark_calls (saveBookmark guestBookmarks historyId pos totalWords uuid now)
       historyId calls"

definition getBookmark :: "BookmarkItem list \<Rightarrow> string \<Rightarrow> BookmarkItem option" where
  "getBookmark guestBookmarks historyId = find (\<lambda>b. history_id b = historyId) guestBookmarks"

section \<open>The file upload handler (components/ContentInput.tsx)\<close>

text \<open>
  A \<open>File\<close> with its \<open>name\<close>, \<open>size\<close> in bytes and MIME \<open>type\<close>. What the handler does
  is the list of its effects in order: toasts (title, description, variant),
  \<open>setLoading\<close>, the start of the file read, the request to the extraction function
  (function name, \<open>pdfData\<close>, \<open>fileName\<close>), the call of \<open>onContentExtracted\<close>, and an
  error thrown inside the \<open>onload\<close> callback.
\<close>

record upload_file =
  file_name :: string
  file_size :: nat
  file_type :: string

datatype effect =
    Toast string string "string option"
  | SetLoading bool
  | ReadAsDataURL upload_file
  | Invoke string "string option" string
  | OnContentExtracted string string string "string option"
  | Throw string

text \<open>\<open>s.split(",")\<close> and \<open>xs[i]\<close>, which is \<open>undefined\<close> out of range.\<close>

fun split_on :: "char \<Rightarrow> string \<Rightarrow> string \<Rightarrow> string list" where
  "split_on sep cur [] = [cur]"
| "split_on sep cur (c # cs) =
     (if c = sep then cur # split_on sep [] cs else split_on sep (cur @ [c]) cs)"

definition at_index :: "'a list \<Rightarrow> nat \<Rightarrow> 'a option" where
  "at_index xs i = (if i < length xs then Some (xs ! i) else None)"

text \<open>
  The synchronous part of \<open>handleFileUpload\<close>; \<open>files\<close> is \<open>e.target.files\<close>, of which
  only the first entry is looked at.
\<close>

definition handleFileUpload :: "upload_file list \<Rightarrow> effect list" where
  "handleFileUpload files =
     (case files of
        [] \<Rightarrow> []
      | f # _ \<Rightarrow>
          if file_size f > 10 * 1024 * 1024
          then [Toast ''Error'' ''File size must be less than 10MB'' (Some ''destructive'')]
          else if file_type f \<noteq> ''application/pdf''
          then [Toast ''Error'' ''Only PDF files are supported'' (Some ''destructive'')]
          else [SetLoading True, ReadAsDataURL f, SetLoading False])"

text \<open>
  The \<open>reader.onload\<close> callback: \<open>base64\<close> is the data URL the read produced, and
  \<open>response\<close> is what the extraction function answers, an error or the content.
\<close>

definition reader_onload :: "upload_file \<Rightarrow> string \<Rightarrow> string + string \<Rightarrow> effect list" where
  "reader_onload f base64 response =
     (let base64Data = at_index (split_on CHR '','' [] base64) 1 in
      Invoke ''extract-pdf-content'' base64Data (file_name f) #
      (case response of
         Inl error \<Rightarrow> [Throw error]
       | Inr content \<Rightarrow>
           [OnContentExtracted content (file_name f) ''pdf'' None,
            Toast ''Success'' ''PDF content extracted successfully!'' None]))"

text \<open>
  The callback runs once for every read that was started, after the handler has
  returned.
\<close>

fun callbacks :: "string \<Rightarrow> string + string \<Rightarrow> effect list \<Rightarrow> effect list" where
  "callbacks base64 response [] = []"
| "callbacks base64 response (ReadAsDataURL f # es) =
     reader_onload f base64 response @ callbacks base64 response es"
| "callbacks base64 response (e # es) = callbacks base64 response es"

definition upload :: "upload_file list \<Rightarrow> string \<Rightarrow> string + string \<Rightarrow> effect list" where
  "upload files base64 response =
     handleFileUpload files @ callbacks base64 response (handleFileUpload files)"

fun is_request :: "effect \<Rightarrow> bool" where
  "is_request (Invoke name pdfData fileName) = True"
| "is_request e = False"

section \<open>Tokenizer: no empty unit, idempotence\<close>

lemma space_is_whitespace: "is_whitespace 0x0020"
  by (simp add: is_whitespace_def)

lemma words_alt: "words s = filter (\<lambda>w. w \<noteq> []) (split_ws [] s)"
  by (simp add: words_def split_whitespace_def)

text \<open>A stretch without white space is read into the current piece as a whole.\<close>

lemma split_ws_no_ws:
  "\<forall>c\<in>set w. \<not> is_whitespace c \<Longrightarrow> split_ws cur (w @ rest) = split_ws (cur @ w) rest"
  by (induction w arbitrary: cur) auto

text \<open>White space in front of a string only adds empty pieces.\<close>

lemma filter_split_dropWhile:
  "filter (\<lambda>w. w \<noteq> []) (split_ws [] (dropWhile is_whitespace v)) =
   filter (\<lambda>w. w \<noteq> []) (split_ws [] v)"
  by (cases v) auto

lemma split_ws_units_no_ws:
  "\<forall>c\<in>set cur. \<not> is_whitespace c \<Longrightarrow> w \<in> set (split_ws cur s) \<Longrightarrow> c \<in> set w \<Longrightarrow>
   \<not> is_whitespace c"
proof (induction cur s rule: split_ws.induct)
  case (1 cur)
  then show ?case by simp
next
  case (2 cur c' cs)
  show ?case
  proof (cases "is_whitespace c'")
    case True
    with 2 show ?thesis by auto
  next
    case False
    with 2 show ?thesis by auto
  qed
qed

lemma words_no_ws: "w \<in> set (words s) \<Longrightarrow> c \<in> set w \<Longrightarrow> \<not> is_whitespace c"
  using split_ws_units_no_ws [of "[]" w s c] by (simp add: words_alt)

lemma words_nonempty: "[] \<notin> set (words s)"
  by (simp add: words_alt)

lemma words_Nil: "words [] = []"
  by (simp add: words_alt)

lemma words_ws_free: "w \<noteq> [] \<Longrightarrow> \<forall>c\<in>set w. \<not> is_whitespace c \<Longrightarrow> words w = [w]"
  using split_ws_no_ws [of w "[]" "[]"] by (simp add: words_alt)

lemma words_ws_free_sep:
  assumes "w \<noteq> []" and "\<forall>c\<in>set w. \<not> is_whitespace c" and "is_whitespace c"
  shows "words (w @ c # rest) = w # words rest"
proof -
  have "split_ws [] (w @ c # rest) = w # split_ws [] (dropWhile is_whitespace rest)"
    using split_ws_no_ws [of w "[]" "c # rest"] assms by simp
  then show ?thesis
    using assms(1) by (simp add: words_alt filter_split_dropWhile)
qed

text \<open>Units that are non-empty and free of white space come back from their join.\<close>

lemma words_join:
  "[] \<notin> set ts \<Longrightarrow> \<forall>w\<in>set ts. \<forall>c\<in>set w. \<not> is_whitespace c \<Longrightarrow> words (join_space ts) = ts"
proof (induction ts rule: join_space.induct)
  case 1
  then show ?case by (simp add: words_Nil)
next
  case (2 w)
  then show ?case by (simp add: words_ws_free)
next
  case (3 w v ws)
  then have "words (join_space (v # ws)) = v # ws" by simp
  moreover have "words (w @ 0x0020 # join_space (v # ws)) = w # words (join_space (v # ws))"
    using 3 by (intro words_ws_free_sep) (auto simp: space_is_whitespace)
  ultimately show ?case by simp
qed

text \<open>
  The tokenizer is fixed by three equations: the empty string has no units, a non-empty
  string free of white space is its own single unit (\<open>words_ws_free\<close>), and a white
  space character splits the string into two parts that are tokenized on their own.
  The units, put together, are the input without its white space.
\<close>

lemma split_ws_append_ws:
  "is_whitespace c \<Longrightarrow>
   filter (\<lambda>w. w \<noteq> []) (split_ws cur (u @ c # v)) =
   filter (\<lambda>w. w \<noteq> []) (split_ws cur u) @ filter (\<lambda>w. w \<noteq> []) (split_ws [] v)"
proof (induction u arbitrary: cur)
  case Nil
  then show ?case by (simp add: filter_split_dropWhile)
next
  case (Cons a u)
  show ?case
  proof (cases "is_whitespace a")
    case True
    have "filter (\<lambda>w. w \<noteq> []) (split_ws [] (dropWhile is_whitespace (u @ c # v))) =
          filter (\<lambda>w. w \<noteq> []) (split_ws [] (u @ c # v))"
      by (rule filter_split_dropWhile)
    moreover have "filter (\<lambda>w. w \<noteq> []) (split_ws [] (dropWhile is_whitespace u)) =
          filter (\<lambda>w. w \<noteq> []) (split_ws [] u)"
      by (rule filter_split_dropWhile)
    ultimately show ?thesis using True Cons.IH [OF Cons.prems, of "[]"] by simp
  next
    case False
    then show ?thesis using Cons.IH [OF Cons.prems, of "cur @ [a]"] by simp
  qed
qed

lemma words_split_at_ws: "is_whitespace c \<Longrightarrow> words (u @ c # v) = words u @ words v"
  by (simp add: words_alt split_ws_append_ws)

lemma concat_split_ws:
  "concat (split_ws cur s) = cur @ filter (\<lambda>c. \<not> is_whitespace c) s"
proof (induction cur s rule: split_ws.induct)
  case (1 cur)
  then show ?case by simp
next
  case (2 cur c cs)
  have "filter (\<lambda>c. \<not> is_whitespace c) (dropWhile is_whitespace cs) =
        filter (\<lambda>c. \<not> is_whitespace c) cs"
    by (induction cs) auto
  with 2 show ?case by simp
qed

lemma concat_words: "concat (words s) = filter (\<lambda>c. \<not> is_whitespace c) s"
proof -
  have "concat (filter (\<lambda>w. w \<noteq> []) xs) = concat xs" for xs :: "jsstring list"
    by (induction xs) auto
  then show ?thesis by (simp add: words_alt concat_split_ws)
qed

text \<open>The scenario of the specification: \<open>"The quick brown fox"\<close> has four units.\<close>

lemma words_quick_brown_fox:
  "words [0x54, 0x68, 0x65, 0x20, 0x71, 0x75, 0x69, 0x63, 0x6B, 0x20,
          0x62, 0x72, 0x6F, 0x77, 0x6E, 0x20, 0x66, 0x6F, 0x78] =
   [[0x54, 0x68, 0x65], [0x71, 0x75, 0x69, 0x63, 0x6B], [0x62, 0x72, 0x6F, 0x77, 0x6E],
    [0x66, 0x6F, 0x78]]"
  by (simp add: words_alt is_whitespace_def)

text \<open>
  C3. For every string \<open>s\<close>, the tokenizer returns the non-empty pieces of \<open>s\<close> between
  its runs of white space, in order: no unit is empty and no unit contains white
  space; the units put together are \<open>s\<close> without its white space; a non-empty string
  free of white space is its own single unit; and a white space character splits a
  string into two parts whose units follow one another. The empty string has no
  units, and tokenizing the units joined by single spaces gives the same units.
\<close>

theorem words_idempotent:
  "[] \<notin> set (words s)
   \<and> words [] = []
   \<and> words (join_space (words s)) = words s
   \<and> (\<forall>w\<in>set (words s). \<forall>c\<in>set w. \<not> is_whitespace c)
   \<and> concat (words s) = filter (\<lambda>c. \<not> is_whitespace c) s
   \<and> (s \<noteq> [] \<and> (\<forall>c\<in>set s. \<not> is_whitespace c) \<longrightarrow> words s = [s])
   \<and> (is_whitespace c \<longrightarrow> words (u @ c # v) = words u @ words v)"
proof -
  have "words (join_space (words s)) = words s"
    by (rule words_join) (auto simp: words_nonempty dest: words_no_ws)
  moreover have "\<forall>w\<in>set (words s). \<forall>c\<in>set w. \<not> is_whitespace c"
    using words_no_ws by blast
  moreover have "s \<noteq> [] \<and> (\<forall>c\<in>set s. \<not> is_whitespace c) \<longrightarrow> words s = [s]"
    using words_ws_free by blast
  moreover have "is_whitespace c \<longrightarrow> words (u @ c # v) = words u @ words v"
    using words_split_at_ws by blast
  ultimately show ?thesis
    by (simp add: words_nonempty words_Nil concat_words)
qed

theorem words_idempotent_witness:
  "is_whitespace 0x0020
   \<and> words [0x61, 0x20, 0x62] = [[0x61], [0x62]]
   \<and> \<not> is_whitespace 0x61
   \<and> words [0x61] = [[0x61]]
   \<and> words (join_space (words [0x61])) = [[0x61]]"
  using words_idempotent [where s = "[0x61]" and c = "0x0020" and u = "[0x61]" and v = "[0x62]"]
  by (simp add: is_whitespace_def words_alt)

section \<open>Stop\<close>

text \<open>
  C4. \<open>handleStop\<close>, from whatever state, leaves the controller not playing, with an empty
  speech queue (the in-flight utterance is cancelled) and \<open>currentWordIndex = 0\<close>; speed
  and voice are untouched. The second conjunct is the scenario of a finished session
  (index equal to the number of words, not playing).
\<close>

theorem handleStop_resets:
  "handleStop s = \<lparr>isPlaying = False, currentWordIndex = 0, speed = speed s,
                    voice = voice s, queue = []\<rparr>
   \<and> currentWordIndex (handleStop (s\<lparr>isPlaying := False, currentWordIndex := length ws\<rparr>)) = 0"
  by (simp add: handleStop_def)

section \<open>Play at or past the last word\<close>

text \<open>
  C10. When \<open>currentWordIndex\<close> is at or past the number of words, \<open>handlePlay\<close> hands no
  utterance to the speech capability and leaves \<open>currentWordIndex\<close> alone; the only
  thing it does is end with \<open>isPlaying = False\<close>. With no words at all this is every
  \<open>handlePlay\<close>. On a finished session (which is not playing) it therefore changes
  nothing, and in particular does not go back to index 0.
\<close>

theorem handlePlay_past_end:
  "length ws \<le> currentWordIndex s \<Longrightarrow>
     handlePlay ws s = s\<lparr>isPlaying := False\<rparr>
     \<and> queue (handlePlay ws s) = queue s
     \<and> currentWordIndex (handlePlay ws s) = currentWordIndex s
     \<and> \<not> isPlaying (handlePlay ws s)
     \<and> handlePlay [] s = s\<lparr>isPlaying := False\<rparr>"
  by (simp add: handlePlay_def render_of_def speakWord_def)

theorem handlePlay_past_end_witness:
  "length [[0x61 :: 16 word]] \<le> currentWordIndex (initial\<lparr>currentWordIndex := 1\<rparr>)
   \<and> handlePlay [[0x61]] (initial\<lparr>currentWordIndex := 1\<rparr>) = initial\<lparr>currentWordIndex := 1\<rparr>
   \<and> handlePlay [] initial = initial"
  using handlePlay_past_end [of "[[0x61]]" "initial\<lparr>currentWordIndex := 1\<rparr>"]
        handlePlay_past_end [of "[]" initial]
  by (simp add: initial_def)

section \<open>Pause right after play\<close>

text \<open>
  C1, as the code has it. After \<open>handlePlay\<close> followed by \<open>handlePause\<close>, with no event
  in between, the controller is not playing, \<open>currentWordIndex\<close> is what it was, and the
  speech queue is empty: the utterance was cancelled, so the speech capability holds
  nothing whose end it could signal, and an \<open>end\<close> event changes nothing. The callback
  itself has no guard of its own: run on the paused state, the \<open>onend\<close> closure of any
  utterance \<open>u\<close> sets \<open>currentWordIndex\<close> to \<open>u_index u + 1\<close>.
\<close>

theorem pause_after_play:
  "\<not> isPlaying (handlePause (handlePlay ws s))
   \<and> currentWordIndex (handlePause (handlePlay ws s)) = currentWordIndex s
   \<and> queue (handlePause (handlePlay ws s)) = []
   \<and> deliver_end ws (handlePause (handlePlay ws s)) = handlePause (handlePlay ws s)
   \<and> currentWordIndex (onend ws u (handlePause (handlePlay ws s))) = u_index u + 1"
  by (simp add: handlePause_def handlePlay_def render_of_def speakWord_def deliver_end_def
      onend_def Let_def)

text \<open>
  The claim as stated fails: with the words \<open>a b\<close>, \<open>handlePlay\<close> on the initial state
  queues the utterance of word 0; after \<open>handlePause\<close>, running that utterance's \<open>onend\<close>
  callback moves \<open>currentWordIndex\<close> from 0 to 1.
\<close>

theorem stale_completion_counterexample:
  "queue (handlePlay [[0x61], [0x62]] initial) =
     [\<lparr>u_text = [0x61], u_rate = 1, u_voice = None, u_index = 0, u_isPlaying = False\<rparr>]
   \<and> currentWordIndex (handlePause (handlePlay [[0x61], [0x62]] initial)) = 0
   \<and> currentWordIndex
       (onend [[0x61], [0x62]]
          \<lparr>u_text = [0x61], u_rate = 1, u_voice = None, u_index = 0, u_isPlaying = False\<rparr>
          (handlePause (handlePlay [[0x61], [0x62]] initial))) \<noteq> 0"
  by (simp add: handlePause_def handlePlay_def render_of_def speakWord_def onend_def initial_def)

section \<open>Completion of a unit\<close>

text \<open>
  The \<open>onend\<close> callback always sets \<open>currentWordIndex\<close> to the index of its utterance plus
  one. It goes on to the next word only if the \<open>isPlaying\<close> it captured is true.
\<close>

lemma onend_index: "currentWordIndex (onend ws u s) = u_index u + 1"
  by (simp add: onend_def speakWord_def Let_def)

lemma onend_continues:
  "u_isPlaying u \<Longrightarrow> u_index u + 1 < length ws \<Longrightarrow>
   queue (onend ws u s) =
     queue s @ [\<lparr>u_text = ws ! (u_index u + 1), u_rate = u_rate u, u_voice = u_voice u,
                 u_index = u_index u + 1, u_isPlaying = True\<rparr>]"
  by (simp add: onend_def speakWord_def Let_def)

lemma onend_stops:
  "\<not> u_isPlaying u \<or> length ws \<le> u_index u + 1 \<Longrightarrow>
   onend ws u s = s\<lparr>currentWordIndex := u_index u + 1, isPlaying := False\<rparr>"
  by (auto simp: onend_def Let_def)

text \<open>
  The Play button is shown only while \<open>isPlaying\<close> is false, so the closure that
  \<open>handlePlay\<close> starts has captured \<open>isPlaying = False\<close>. The first \<open>end\<close> event then
  advances the index by one and stops: nothing is queued for the next word.
\<close>

lemma play_then_completion:
  "\<not> isPlaying s \<Longrightarrow> queue s = [] \<Longrightarrow> currentWordIndex s < length ws \<Longrightarrow>
   deliver_end ws (handlePlay ws s) = s\<lparr>currentWordIndex := currentWordIndex s + 1\<rparr>"
  by (simp add: handlePlay_def render_of_def speakWord_def onend_def deliver_end_def)

text \<open>
  C2, at the words \<open>a b\<close>: \<open>handlePlay\<close> on the initial state queues word 0 with
  \<open>isPlaying = False\<close> captured; the \<open>end\<close> event for it leaves the index at 1 of 2, the
  controller not playing and the queue empty, so word 1 is never spoken.
\<close>

theorem first_completion_stops_playback:
  "handlePlay [[0x61], [0x62]] initial =
     \<lparr>isPlaying = True, currentWordIndex = 0, speed = 1, voice = None,
      queue = [\<lparr>u_text = [0x61], u_rate = 1, u_voice = None, u_index = 0, u_isPlaying = False\<rparr>]\<rparr>
   \<and> deliver_end [[0x61], [0x62]] (handlePlay [[0x61], [0x62]] initial) =
     \<lparr>isPlaying = False, currentWordIndex = 1, speed = 1, voice = None, queue = []\<rparr>"
  by (simp add: handlePlay_def render_of_def speakWord_def onend_def initial_def deliver_end_def)

section \<open>Errors of the speech capability\<close>

text \<open>
  C5, as the code has it. No \<open>onerror\<close> callback is set on the utterance, so an \<open>error\<close>
  event runs no code of the component: \<open>currentWordIndex\<close>, \<open>isPlaying\<close>, speed and voice
  stay as they are, and nothing is queued for the next word (the queue only loses the
  failed utterance).
\<close>

theorem error_is_ignored:
  "currentWordIndex (deliver_error s) = currentWordIndex s
   \<and> isPlaying (deliver_error s) = isPlaying s
   \<and> queue (deliver_error s) = tl (queue s)
   \<and> speed (deliver_error s) = speed s \<and> voice (deliver_error s) = voice s"
  by (simp add: deliver_error_def split: list.split)

text \<open>
  The claim as stated fails: with the words \<open>a b\<close>, an \<open>error\<close> event for word 0 leaves
  \<open>currentWordIndex = 0\<close> with \<open>isPlaying\<close> still true and nothing queued, where the \<open>end\<close>
  event for word 0 gives index 1.
\<close>

theorem error_counterexample:
  "deliver_error (handlePlay [[0x61], [0x62]] initial) =
     \<lparr>isPlaying = True, currentWordIndex = 0, speed = 1, voice = None, queue = []\<rparr>
   \<and> currentWordIndex (deliver_end [[0x61], [0x62]] (handlePlay [[0x61], [0x62]] initial)) = 1
   \<and> deliver_error (handlePlay [[0x61], [0x62]] initial)
       \<noteq> deliver_end [[0x61], [0x62]] (handlePlay [[0x61], [0x62]] initial)"
  by (simp add: handlePlay_def render_of_def speakWord_def onend_def initial_def deliver_end_def
      deliver_error_def)

section \<open>Progress\<close>

lemma round_double_1: "round_double 1 = 1"
  by code_simp

lemma round_double_100: "round_double 100 = 100"
  by code_simp

lemma round_double_half: "round_double (1 / 2) = 1 / 2"
  by code_simp

text \<open>
  The quotient is rounded: one third of the way through, the progress value is not
  the rational \<open>100 / 3\<close>.
\<close>

lemma progress_third: "progress 1 3 = Finite (4691249611844266 / 2 ^ 47)"
  by code_simp

lemma floor_log2_bounds:
  "0 < x \<Longrightarrow> 2 powi floor_log2 x \<le> x \<and> x < 2 powi (floor_log2 x + 1)"
proof (induction x rule: floor_log2.induct)
  case (1 x)
  show ?case
  proof (cases "x < 1")
    case True
    with 1 have ih: "2 powi floor_log2 (2 * x) \<le> 2 * x \<and> 2 * x < 2 powi (floor_log2 (2 * x) + 1)"
      by simp
    have fl: "floor_log2 x = floor_log2 (2 * x) - 1"
      using True 1(3) by (subst floor_log2.simps) simp
    have "(2::rat) powi (floor_log2 (2 * x) - 1) = 2 powi floor_log2 (2 * x) / 2"
      by (simp add: power_int_diff)
    moreover have "(2::rat) powi (floor_log2 (2 * x) + 1) = 2 powi floor_log2 (2 * x) * 2"
      by (simp add: power_int_add)
    ultimately show ?thesis using ih fl by simp
  next
    case False
    note ge1 = this
    show ?thesis
    proof (cases "2 \<le> x")
      case True
      with 1 ge1 have ih: "2 powi floor_log2 (x / 2) \<le> x / 2 \<and> x / 2 < 2 powi (floor_log2 (x / 2) + 1)"
        by simp
      have fl: "floor_log2 x = floor_log2 (x / 2) + 1"
        using True ge1 by (subst floor_log2.simps) simp
      have "(2::rat) powi (floor_log2 (x / 2) + 1) = 2 powi floor_log2 (x / 2) * 2"
        by (simp add: power_int_add)
      moreover have "(2::rat) powi (floor_log2 (x / 2) + 1 + 1) = 2 powi floor_log2 (x / 2) * 2 * 2"
        by (simp add: power_int_add)
      ultimately show ?thesis using ih fl by simp
    next
      case False
      have fl: "floor_log2 x = 0"
        using False ge1 by (subst floor_log2.simps) simp
      show ?thesis using False ge1 fl by simp
    qed
  qed
qed

lemma round_half_even_near: "\<bar>of_int (round_half_even q) - q\<bar> \<le> 1 / 2"
proof -
  define r where "r = q - of_int \<lfloor>q\<rfloor>"
  have r: "0 \<le> r" "r < 1" unfolding r_def by linarith+
  have q: "q = of_int \<lfloor>q\<rfloor> + r" by (simp add: r_def)
  consider "r < 1 / 2" | "1 / 2 < r" | "r = 1 / 2" by linarith
  then show ?thesis
  proof cases
    case 1
    then have "round_half_even q = \<lfloor>q\<rfloor>"
      by (simp add: round_half_even_def Let_def r_def)
    then show ?thesis using 1 r q by simp
  next
    case 2
    then have "round_half_even q = \<lfloor>q\<rfloor> + 1"
      by (simp add: round_half_even_def Let_def r_def)
    then have "of_int (round_half_even q) - q = 1 - r" using q by simp
    then show ?thesis using 2 r by simp
  next
    case 3
    then have "round_half_even q = \<lfloor>q\<rfloor> \<or> round_half_even q = \<lfloor>q\<rfloor> + 1"
      by (simp add: round_half_even_def Let_def r_def)
    then have "of_int (round_half_even q) - q = - r \<or> of_int (round_half_even q) - q = 1 - r"
      using q by auto
    then show ?thesis using 3 by auto
  qed
qed

text \<open>The rounded value is within half a unit in the last place of the exact one.\<close>

lemma round_double_near:
  assumes "0 < x"
  shows "\<bar>round_double x - x\<bar> \<le> x / 2 ^ 53"
proof -
  define e where "e = floor_log2 x"
  define ulp :: rat where "ulp = 2 powi (e - 52)"
  have ulp_pos: "0 < ulp" by (simp add: ulp_def)
  have rd: "round_double x = of_int (round_half_even (x / ulp)) * ulp"
    using assms by (simp add: round_double_def Let_def ulp_def e_def)
  have "round_double x - x = (of_int (round_half_even (x / ulp)) - x / ulp) * ulp"
    using ulp_pos by (simp add: rd left_diff_distrib)
  then have "\<bar>round_double x - x\<bar> = \<bar>of_int (round_half_even (x / ulp)) - x / ulp\<bar> * \<bar>ulp\<bar>"
    by (simp only: abs_mult)
  also have "\<dots> = \<bar>of_int (round_half_even (x / ulp)) - x / ulp\<bar> * ulp"
    using ulp_pos by simp
  finally have "\<bar>round_double x - x\<bar> = \<bar>of_int (round_half_even (x / ulp)) - x / ulp\<bar> * ulp" .
  also have "\<dots> \<le> 1 / 2 * ulp"
    using round_half_even_near [of "x / ulp"] ulp_pos by (intro mult_right_mono) simp_all
  also have "1 / 2 * ulp = 2 powi e / 2 ^ 53"
    by (simp add: ulp_def power_int_diff)
  also have "\<dots> \<le> x / 2 ^ 53"
    using floor_log2_bounds [OF assms] by (simp add: e_def divide_right_mono)
  finally show ?thesis .
qed

text \<open>
  C7. With \<open>n = words.length > 0\<close> (an array length, below \<open>2^32\<close>) and an index
  \<open>i \<le> n\<close>, the quotient \<open>currentWordIndex / words.length\<close> is the exact ratio \<open>i / n\<close>
  rounded to a binary64 value, within a relative error of \<open>2^-53\<close>; at \<open>i = n\<close>, the
  finished state, it is exactly 1, and \<open>progress\<close> is exactly 100. With no words the
  index is 0 and both are \<open>NaN\<close>, the undefined result of \<open>0 / 0\<close>.
\<close>

theorem progressRatio_is_ratio:
  "0 < n \<Longrightarrow> n < 2 ^ 32 \<Longrightarrow> i \<le> n \<Longrightarrow>
     progressRatio i n = Finite (round_double (of_nat i / of_nat n))
     \<and> \<bar>round_double (of_nat i / of_nat n) - of_nat i / of_nat n\<bar>
         \<le> (of_nat i / of_nat n) / 2 ^ 53
     \<and> progressRatio n n = Finite 1
     \<and> progress n n = Finite 100
     \<and> progressRatio 0 0 = NaN
     \<and> progress 0 0 = NaN"
proof -
  assume n: "0 < n"
  have "\<bar>round_double (of_nat i / of_nat n) - of_nat i / of_nat n\<bar>
      \<le> (of_nat i / of_nat n) / 2 ^ 53"
  proof (cases "i = 0")
    case True
    then show ?thesis by (simp add: round_double_def)
  next
    case False
    with n have "(0::rat) < of_nat i / of_nat n" by simp
    then show ?thesis by (rule round_double_near)
  qed
  moreover have "progressRatio i n = Finite (round_double (of_nat i / of_nat n))"
    using n by (simp add: progressRatio_def js_div_def)
  moreover have "progressRatio n n = Finite 1"
    using n by (simp add: progressRatio_def js_div_def round_double_1)
  moreover from this have "progress n n = Finite 100"
    by (simp add: progress_def round_double_100)
  moreover have "progressRatio 0 0 = NaN" and "progress 0 0 = NaN"
    by (simp_all add: progress_def progressRatio_def js_div_def)
  ultimately show ?thesis by simp
qed

theorem progressRatio_is_ratio_witness:
  "(0::nat) < 4 \<and> (4::nat) < 2 ^ 32 \<and> (2::nat) \<le> 4
   \<and> progressRatio 2 4 = Finite (1 / 2)
   \<and> progressRatio 4 4 = Finite 1
   \<and> progress 4 4 = Finite 100"
  using progressRatio_is_ratio [of 4 2] by (simp add: round_double_half)

section \<open>Guest history\<close>











section \<open>Guest bookmarks\<close>

lemma findIndex_neg: "findIndex P xs < 0 \<longleftrightarrow> (\<forall>x\<in>set xs. \<not> P x)"
  by (induction xs) (auto simp: Let_def)

lemma findIndex_bound: "findIndex P xs < int (length xs)"
  by (induction xs) (auto simp: Let_def)

lemma findIndex_hit: "0 \<le> findIndex P xs \<Longrightarrow> P (xs ! nat (findIndex P xs))"
  by (induction xs) (auto simp: Let_def nat_add_distrib split: if_splits)

text \<open>
  A save keeps the keys of the list and their order; a key that was not there is
  added at the end.
\<close>

lemma keys_saveBookmark:
  "map history_id (saveBookmark bs k p t u n) =
     (if k \<in> history_id ` set bs then map history_id bs else map history_id bs @ [k])"
proof (cases "findIndex (\<lambda>b. history_id b = k) bs < 0")
  case True
  then have "k \<notin> history_id ` set bs" by (auto simp: findIndex_neg)
  with True show ?thesis by (simp add: saveBookmark_def Let_def)
next
  case False
  then have ge: "0 \<le> findIndex (\<lambda>b. history_id b = k) bs" by simp
  from False have "k \<in> history_id ` set bs" by (auto simp: findIndex_neg)
  moreover have "history_id (bs ! nat (findIndex (\<lambda>b. history_id b = k) bs)) = k"
    using findIndex_hit [OF ge] .
  ultimately show ?thesis
    using ge by (simp add: saveBookmark_def Let_def map_update) (metis list_update_id map_update)
qed

text \<open>
  The invariant of the store, at most one bookmark per \<open>history_id\<close>, holds for the
  empty list and is kept by every save, whatever its key.
\<close>

lemma distinct_saveBookmark:
  "distinct (map history_id bs) \<Longrightarrow> distinct (map history_id (saveBookmark bs k p t u n))"
  by (auto simp: keys_saveBookmark)

lemma key_in_saveBookmark: "k \<in> history_id ` set (saveBookmark bs k p t u n)"
proof -
  have "k \<in> set (map history_id (saveBookmark bs k p t u n))"
    unfolding keys_saveBookmark by simp
  then show ?thesis by simp
qed

lemma saveBookmark_values:
  assumes "distinct (map history_id bs)" and "b \<in> set (saveBookmark bs k p t u n)"
    and "history_id b = k"
  shows "position b = p \<and> total_words b = t \<and> updated_at b = n"
proof (cases "findIndex (\<lambda>b. history_id b = k) bs < 0")
  case True
  then have none: "\<forall>x\<in>set bs. history_id x \<noteq> k" by (simp add: findIndex_neg)
  from True assms(2) have "b \<in> set bs \<or>
      b = \<lparr>id_bookmark = u, history_id = k, position = p, total_words = t, updated_at = n\<rparr>"
    by (auto simp: saveBookmark_def Let_def)
  moreover have "b \<notin> set bs" using none assms(3) by auto
  ultimately have "b = \<lparr>id_bookmark = u, history_id = k, position = p, total_words = t,
      updated_at = n\<rparr>" by simp
  then show ?thesis by (cases b) simp
next
  case False
  define i where "i = nat (findIndex (\<lambda>b. history_id b = k) bs)"
  define y where "y = (bs ! i)\<lparr>position := p, total_words := t, updated_at := n\<rparr>"
  from False have ge: "0 \<le> findIndex (\<lambda>b. history_id b = k) bs" by simp
  have i_lt: "i < length bs"
    using findIndex_bound [of "\<lambda>b. history_id b = k" bs] ge by (simp add: i_def)
  have key_i: "history_id (bs ! i) = k"
    using findIndex_hit [OF ge] by (simp add: i_def)
  have upd: "saveBookmark bs k p t u n = bs[i := y]"
    using ge by (simp add: saveBookmark_def Let_def i_def y_def)
  from assms(2) obtain j where j: "j < length bs" "b = bs[i := y] ! j"
    unfolding upd by (auto simp: in_set_conv_nth)
  have "j = i"
  proof (rule ccontr)
    assume "j \<noteq> i"
    with j have "b = bs ! j" by simp
    with assms(3) key_i have eq: "map history_id bs ! j = map history_id bs ! i"
      using j(1) i_lt by simp
    have "j < length (map history_id bs)" and "i < length (map history_id bs)"
      using j(1) i_lt by simp_all
    from nth_eq_iff_index_eq [OF assms(1) this] eq have "j = i" by blast
    with \<open>j \<noteq> i\<close> show False by simp
  qed
  with j i_lt have "b = y" by simp
  then show ?thesis by (simp add: y_def)
qed

lemma filter_unique:
  "distinct (map f xs) \<Longrightarrow> k \<in> f ` set xs \<Longrightarrow> \<exists>x. filter (\<lambda>x. f x = k) xs = [x]"
proof (induction xs)
  case Nil
  then show ?case by simp
next
  case (Cons a xs)
  show ?case
  proof (cases "f a = k")
    case True
    from Cons.prems(1) have "f a \<notin> f ` set xs" by simp
    with True have "\<forall>x\<in>set xs. f x \<noteq> k" by blast
    then have "filter (\<lambda>x. f x = k) xs = []"
      by (simp add: filter_empty_conv)
    with True show ?thesis by simp
  next
    case False
    with Cons show ?thesis by auto
  qed
qed

lemma distinct_saveBookmark_calls:
  "distinct (map history_id bs) \<Longrightarrow> distinct (map history_id (saveBookmark_calls bs k calls))"
  by (induction bs k calls rule: saveBookmark_calls.induct) (auto simp: distinct_saveBookmark)

lemma saveBookmark_calls_snoc:
  "saveBookmark_calls bs k (calls @ [(p, t, u, n)]) =
   saveBookmark (saveBookmark_calls bs k calls) k p t u n"
  by (induction bs k calls rule: saveBookmark_calls.induct) auto

text \<open>
  \<open>getBookmark\<close> after a save returns the saved values, from every list: both take
  the first bookmark of the key.
\<close>

lemma find_append_miss:
  "findIndex P xs < 0 \<Longrightarrow> P y \<Longrightarrow> find P (xs @ [y]) = Some y"
  by (induction xs) (auto simp: Let_def split: if_splits)

lemma find_update_hit:
  "0 \<le> findIndex P xs \<Longrightarrow> P y \<Longrightarrow> find P (xs[nat (findIndex P xs) := y]) = Some y"
  by (induction xs) (auto simp: Let_def nat_add_distrib split: if_splits)

lemma getBookmark_saveBookmark:
  "\<exists>b. getBookmark (saveBookmark bs k p t u n) k = Some b
       \<and> history_id b = k \<and> position b = p \<and> total_words b = t \<and> updated_at b = n"
proof (cases "findIndex (\<lambda>b. history_id b = k) bs < 0")
  case True
  then show ?thesis
    by (simp add: getBookmark_def saveBookmark_def Let_def find_append_miss)
next
  case False
  then have ge: "0 \<le> findIndex (\<lambda>b. history_id b = k) bs" by simp
  let ?y = "(bs ! nat (findIndex (\<lambda>b. history_id b = k) bs))
              \<lparr>position := p, total_words := t, updated_at := n\<rparr>"
  have "history_id ?y = k" using findIndex_hit [OF ge] by simp
  with ge have "find (\<lambda>b. history_id b = k)
      (bs[nat (findIndex (\<lambda>b. history_id b = k) bs) := ?y]) = Some ?y"
    by (intro find_update_hit) simp_all
  with ge show ?thesis
    using findIndex_hit [OF ge] by (simp add: getBookmark_def saveBookmark_def Let_def)
qed

text \<open>
  C6. Let \<open>bs\<close> be a state of the bookmark store, a list with at most one bookmark per
  \<open>history_id\<close>, and \<open>k\<close> a key. After any non-empty sequence of \<open>saveBookmark\<close> calls
  for \<open>k\<close>, exactly one stored bookmark has the key \<open>k\<close>, and its \<open>position\<close> and
  \<open>total_words\<close> are the arguments of the last call.
\<close>

theorem saveBookmark_upsert:
  assumes "distinct (map history_id bs)" and "calls \<noteq> []"
  shows "\<exists>b. filter (\<lambda>b. history_id b = k) (saveBookmark_calls bs k calls) = [b]
           \<and> position b = fst (last calls) \<and> total_words b = fst (snd (last calls))"
proof -
  from assms(2) obtain cs p t u n where calls: "calls = cs @ [(p, t, u, n)]"
    by (metis rev_exhaust prod_cases4)
  let ?prev = "saveBookmark_calls bs k cs"
  have res: "saveBookmark_calls bs k calls = saveBookmark ?prev k p t u n"
    by (simp add: calls saveBookmark_calls_snoc)
  have d: "distinct (map history_id ?prev)"
    using assms(1) by (rule distinct_saveBookmark_calls)
  then have "distinct (map history_id (saveBookmark ?prev k p t u n))"
    by (rule distinct_saveBookmark)
  moreover have "k \<in> history_id ` set (saveBookmark ?prev k p t u n)"
    by (rule key_in_saveBookmark)
  ultimately have "\<exists>b. filter (\<lambda>b. history_id b = k) (saveBookmark ?prev k p t u n) = [b]"
    by (rule filter_unique)
  then obtain b where b: "filter (\<lambda>b. history_id b = k) (saveBookmark ?prev k p t u n) = [b]" ..
  have "b \<in> set (filter (\<lambda>b. history_id b = k) (saveBookmark ?prev k p t u n))"
    by (simp add: b)
  then have "b \<in> set (saveBookmark ?prev k p t u n)" and "history_id b = k"
    by simp_all
  with d have "position b = p \<and> total_words b = t \<and> updated_at b = n"
    by (rule saveBookmark_values)
  with b res show ?thesis by (simp add: calls)
qed

text \<open>
  The scenario of the specification: on the empty store, a save for \<open>abc\<close> at 3 of 10
  and then at 7 of 10 leaves one bookmark, with position 7.
\<close>

theorem saveBookmark_upsert_witness:
  "distinct (map history_id ([] :: BookmarkItem list))
   \<and> [(3, 10, ''u1'', ''t1''), (7, 10, ''u2'', ''t2'')] \<noteq> ([] :: (int \<times> int \<times> string \<times> string) list)
   \<and> (\<exists>b. filter (\<lambda>b. history_id b = ''abc'')
             (saveBookmark_calls [] ''abc'' [(3, 10, ''u1'', ''t1''), (7, 10, ''u2'', ''t2'')]) = [b]
           \<and> position b = 7 \<and> total_words b = 10)
   \<and> saveBookmark_calls [] ''abc'' [(3, 10, ''u1'', ''t1''), (7, 10, ''u2'', ''t2'')] =
       [\<lparr>id_bookmark = ''u1'', history_id = ''abc'', position = 7, total_words = 10,
         updated_at = ''t2''\<rparr>]"
  using saveBookmark_upsert [of "[]" "[(3, 10, ''u1'', ''t1''), (7, 10, ''u2'', ''t2'')]" "''abc''"]
  by (simp add: saveBookmark_def)

section \<open>File upload\<close>

text \<open>A PDF within the limit is read and sent: the handler does issue the request.\<close>

lemma accepted_file_is_sent:
  "file_size f \<le> 10 * 1024 * 1024 \<Longrightarrow> file_type f = ''application/pdf'' \<Longrightarrow>
   filter is_request (upload (f # rest) base64 response) =
     [Invoke ''extract-pdf-content'' (at_index (split_on CHR '','' [] base64) 1) (file_name f)]"
  by (simp add: upload_def handleFileUpload_def reader_onload_def Let_def split: sum.split)

lemma file_of_size_limit_is_sent:
  "filter is_request
     (upload [\<lparr>file_name = ''a.pdf'', file_size = 10 * 1024 * 1024, file_type = ''application/pdf''\<rparr>]
        ''data:application/pdf;base64,QUJD'' (Inr ''hello'')) =
   [Invoke ''extract-pdf-content'' (Some ''QUJD'') ''a.pdf'']"
  by (simp add: upload_def handleFileUpload_def reader_onload_def Let_def at_index_def)

text \<open>
  C8. For a file of more than \<open>10 * 1024 * 1024\<close> bytes, whatever its type, all the
  handler does is show the size-limit error toast: no read is started, so the
  \<open>onload\<close> callback never runs and no request to the extraction function is made.
\<close>

theorem oversized_file_rejected:
  "file_size f > 10 * 1024 * 1024 \<Longrightarrow>
     upload (f # rest) base64 response =
       [Toast ''Error'' ''File size must be less than 10MB'' (Some ''destructive'')]
     \<and> filter is_request (upload (f # rest) base64 response) = []"
  by (simp add: upload_def handleFileUpload_def)

theorem oversized_file_rejected_witness:
  "file_size \<lparr>file_name = ''big.pdf'', file_size = 11 * 1024 * 1024, file_type = ''application/pdf''\<rparr>
     > 10 * 1024 * 1024
   \<and> upload [\<lparr>file_name = ''big.pdf'', file_size = 11 * 1024 * 1024,
              file_type = ''application/pdf''\<rparr>] ''data:application/pdf;base64,QUJD'' (Inr ''text'') =
       [Toast ''Error'' ''File size must be less than 10MB'' (Some ''destructive'')]"
  using oversized_file_rejected [of
      "\<lparr>file_name = ''big.pdf'', file_size = 11 * 1024 * 1024, file_type = ''application/pdf''\<rparr>"
      "[]" "''data:application/pdf;base64,QUJD''" "Inr ''text''"]
  by simp

end
